theory Spec2Isabelle
  imports Main "HOL-Library.Char_ord" "HOL-Library.List_Lexorder" "HOL-Library.Sublist"
begin

section \<open>Python values used by the module\<close>

text \<open>
  Exceptions of the Python run time that the module can raise are values of \<open>error\<close>;
  a call that may raise returns \<open>error + 'a\<close> with \<open>Inl\<close> for the exception.
\<close>

datatype error = IndexError | NameError | TypeError | AttributeError

definition nl :: char where
  "nl = CHR 0x0A"

text \<open>
  Python adjusts the bounds of \<open>s[a:b]\<close>, \<open>s.find(c, a)\<close>, \<open>s.rfind(c, a, b)\<close> and
  \<open>s.count(c, a, b)\<close> in the same way: a negative bound counts from the end, and the
  result is clamped into \<open>0 .. len(s)\<close>.
\<close>

definition adjust :: "nat \<Rightarrow> int \<Rightarrow> nat" where
  "adjust n i = (if i < 0 then nat (max 0 (int n + i)) else min n (nat i))"

definition str_slice :: "string \<Rightarrow> int \<Rightarrow> int \<Rightarrow> string" where
  "str_slice s a b = drop (adjust (length s) a) (take (adjust (length s) b) s)"

definition str_rfind :: "string \<Rightarrow> char \<Rightarrow> int \<Rightarrow> int \<Rightarrow> int" where
  "str_rfind s c a b =
     (case filter (\<lambda>i. s ! i = c) (rev [adjust (length s) a ..< adjust (length s) b]) of
        [] \<Rightarrow> - 1
      | i # _ \<Rightarrow> int i)"

definition str_find :: "string \<Rightarrow> char \<Rightarrow> int \<Rightarrow> int" where
  "str_find s c a =
     (case filter (\<lambda>i. s ! i = c) [adjust (length s) a ..< length s] of
        [] \<Rightarrow> - 1
      | i # _ \<Rightarrow> int i)"

definition str_count :: "string \<Rightarrow> char \<Rightarrow> int \<Rightarrow> int \<Rightarrow> int" where
  "str_count s c a b = int (length (filter (\<lambda>x. x = c) (str_slice s a b)))"

text \<open>Python list indexing \<open>xs[i]\<close>: a negative index counts from the end, anything
  outside \<open>-len(xs) .. len(xs) - 1\<close> raises IndexError.\<close>

definition list_getitem :: "'a list \<Rightarrow> int \<Rightarrow> error + 'a" where
  "list_getitem xs i =
     (if 0 \<le> i \<and> i < int (length xs) then Inr (xs ! nat i)
      else if - int (length xs) \<le> i \<and> i < 0 then Inr (xs ! nat (int (length xs) + i))
      else Inl IndexError)"

section \<open>Token\<close>

text \<open>
  \<open>class Token\<close>: the constructor takes \<open>(token, string, start, end)\<close>, stores them and
  derives \<open>line\<close>, \<open>line_number\<close> and \<open>column_number\<close>. The field \<open>end\<close> is written
  \<open>end_\<close>.
\<close>

record Token =
  token :: string
  string :: string
  start :: int
  end_ :: int
  line :: string
  line_number :: int
  column_number :: int

definition Token_init :: "string \<Rightarrow> string \<Rightarrow> int \<Rightarrow> int \<Rightarrow> Token" where
  "Token_init tok str st en =
     (let a = str_rfind str nl 0 st + 1;
          b = str_find str nl en;
          b = (if b = 0 then int (length str) else b)
      in \<lparr> token = tok, string = str, start = st, end_ = en,
           line = str_slice str a b,
           line_number = str_count str nl 0 st,
           column_number = st - a + 1 \<rparr>)"

section \<open>TokenStream\<close>

text \<open>
  \<open>class TokenStream\<close>: the list of tokens and the cursor \<open>position\<close>, a Python int.
  Every method returns its result together with the stream as the method leaves it, so
  that a method that raises after an assignment shows the assignment.
\<close>

record TokenStream =
  token_list :: "Token list"
  position :: int

definition TokenStream_init :: "Token list \<Rightarrow> TokenStream" where
  "TokenStream_init token_generator = \<lparr> token_list = token_generator, position = 0 \<rparr>"

definition TokenStream_peek :: "TokenStream \<Rightarrow> (error + Token) \<times> TokenStream" where
  "TokenStream_peek self =
     (list_getitem (token_list self)
        (min (position self) (int (length (token_list self)) - 1)), self)"

definition TokenStream_save :: "TokenStream \<Rightarrow> int" where
  "TokenStream_save self = position self"

definition TokenStream_load :: "TokenStream \<Rightarrow> int \<Rightarrow> TokenStream" where
  "TokenStream_load self pos = self\<lparr>position := pos\<rparr>"

definition TokenStream_next :: "TokenStream \<Rightarrow> (error + Token) \<times> TokenStream" where
  "TokenStream_next self =
     (let self = self\<lparr>position := position self + 1\<rparr>
      in (list_getitem (token_list self) (position self - 1), self))"

section \<open>Parser nodes\<close>

text \<open>
  A grammar is a graph of parser objects that may be cyclic (a \<open>Proxy\<close> is assigned its
  target after construction), so the objects live in a store: \<open>addr\<close> is the identity of
  an object and \<open>heap\<close> gives the object at each address. A node holds the addresses of
  the parsers it refers to. The classes of the module are the constructors of \<open>node\<close>;
  \<open>And\<close> and \<open>Or\<close> keep their names.

  A parse result is any Python value. \<open>PyNone\<close> is \<open>None\<close>, a \<open>PyToken\<close> is what a
  token matcher returns, a \<open>PyList\<close> is what \<open>And\<close> and \<open>Repeat\<close> return, and \<open>PyObj\<close>
  stands for any other object an action may build. The functions a grammar author passes
  in (\<open>condition\<close>, \<open>action\<close>) are taken as pure and total.
\<close>

datatype pyval = PyNone | PyToken Token | PyList "pyval list" | PyObj nat

type_synonym addr = nat

datatype node =
    TokenSatisfying "Token \<Rightarrow> bool"
  | TokenOfType string
  | TokenMatching string
  | Symbol string
  | Keyword string
  | Action addr "pyval \<Rightarrow> pyval"
  | Proxy "addr option"
  | Or "addr list"
  | And "addr list"
  | Repeat addr int "int option"

type_synonym heap = "addr \<Rightarrow> node"

text \<open>
  \<open>OnSuccess\<close>, \<open>OnFailure\<close>, \<open>ZeroOrMore\<close>, \<open>OneOrMore\<close> and \<open>AtMost\<close> are the module's
  lambdas over \<open>Action\<close> and \<open>Repeat\<close>.
\<close>

definition OnSuccess :: "addr \<Rightarrow> (pyval \<Rightarrow> pyval) \<Rightarrow> node" where
  "OnSuccess parser action =
     Action parser (\<lambda>result. if result \<noteq> PyNone then action result else PyNone)"

definition OnFailure :: "addr \<Rightarrow> (pyval \<Rightarrow> pyval) \<Rightarrow> node" where
  "OnFailure parser action =
     Action parser (\<lambda>result. if result = PyNone then action result else result)"

definition ZeroOrMore :: "addr \<Rightarrow> node" where
  "ZeroOrMore parser = Repeat parser 0 None"

definition OneOrMore :: "addr \<Rightarrow> node" where
  "OneOrMore parser = Repeat parser 1 None"

definition AtMost :: "addr \<Rightarrow> int \<Rightarrow> node" where
  "AtMost parser n = Repeat parser 0 (Some n)"

text \<open>
  The attribute \<open>children\<close>: the empty tuple for the token matchers, the wrapped parser
  for \<open>Action\<close> and \<open>Repeat\<close>, all the parsers for \<open>And\<close> and \<open>Or\<close>, and for a \<open>Proxy\<close>
  the target if one is assigned.
\<close>

fun children :: "node \<Rightarrow> addr list" where
  "children (TokenSatisfying c) = []"
| "children (TokenOfType ty) = []"
| "children (TokenMatching t) = []"
| "children (Symbol s) = []"
| "children (Keyword k) = []"
| "children (Action parser action) = [parser]"
| "children (Proxy None) = []"
| "children (Proxy (Some parser)) = [parser]"
| "children (Or parsers) = parsers"
| "children (And parsers) = parsers"
| "children (Repeat parser at_least at_most) = [parser]"

text \<open>
  \<open>self.condition(t)\<close> of the token matchers. \<open>TokenOfType\<close> reads \<open>t.type_\<close>, an
  attribute that \<open>Token\<close> objects do not have, so its condition raises AttributeError.
  The combinators have no condition; the equation for them is never used.
\<close>

fun condition :: "node \<Rightarrow> Token \<Rightarrow> error + bool" where
  "condition (TokenSatisfying c) t = Inr (c t)"
| "condition (TokenOfType ty) t = Inl AttributeError"
| "condition (TokenMatching x) t = Inr (token t = x)"
| "condition (Symbol x) t = Inr (token t = x)"
| "condition (Keyword x) t = Inr (token t = x)"
| "condition other t = Inl AttributeError"

section \<open>Parsing\<close>

text \<open>
  \<open>TokenSatisfying._parse\<close>: peek, test the condition, and consume the token when it
  holds; otherwise the method falls off its end and returns \<open>None\<close>.
\<close>

definition TokenSatisfying_parse :: "node \<Rightarrow> TokenStream \<Rightarrow> (error + pyval) \<times> TokenStream" where
  "TokenSatisfying_parse self stream =
     (case TokenStream_peek stream of
        (Inl e, stream) \<Rightarrow> (Inl e, stream)
      | (Inr t, stream) \<Rightarrow>
          (case condition self t of
             Inl e \<Rightarrow> (Inl e, stream)
           | Inr ok \<Rightarrow>
               if ok then
                 (case TokenStream_next stream of
                    (Inl e, stream) \<Rightarrow> (Inl e, stream)
                  | (Inr t', stream) \<Rightarrow> (Inr (PyToken t'), stream))
               else (Inr PyNone, stream)))"

text \<open>
  Parsers call each other through \<open>Parser.__call__\<close>, and a grammar can recurse without
  consuming input, so a call need not return. \<open>Parser_call\<close> therefore takes a bound on
  the depth of nested calls, which also bounds the iterations of a \<open>Repeat\<close> loop at that
  depth; the result \<open>None\<close> means that the bound was reached. The \<open>_parse\<close> methods get
  the function \<open>call\<close> that invokes a child parser (\<open>parser(stream)\<close> in the source).
\<close>

type_synonym outcome = "((error + pyval) \<times> TokenStream) option"

text \<open>\<open>Or._parse\<close>: the first result that is not \<open>None\<close>; \<open>None\<close> after the loop.\<close>

fun Or_parse :: "(addr \<Rightarrow> TokenStream \<Rightarrow> outcome) \<Rightarrow> addr list \<Rightarrow> TokenStream \<Rightarrow> outcome" where
  "Or_parse call [] stream = Some (Inr PyNone, stream)"
| "Or_parse call (parser # parsers) stream =
     (case call parser stream of
        None \<Rightarrow> None
      | Some (Inl e, stream) \<Rightarrow> Some (Inl e, stream)
      | Some (Inr result, stream) \<Rightarrow>
          if result \<noteq> PyNone then Some (Inr result, stream)
          else Or_parse call parsers stream)"

text \<open>\<open>And._parse\<close>: \<open>None\<close> at the first child that returns \<open>None\<close>, else the list of
  the results.\<close>

fun And_parse :: "(addr \<Rightarrow> TokenStream \<Rightarrow> outcome) \<Rightarrow> addr list \<Rightarrow> pyval list \<Rightarrow> TokenStream \<Rightarrow> outcome" where
  "And_parse call [] results stream = Some (Inr (PyList results), stream)"
| "And_parse call (parser # parsers) results stream =
     (case call parser stream of
        None \<Rightarrow> None
      | Some (Inl e, stream) \<Rightarrow> Some (Inl e, stream)
      | Some (Inr result, stream) \<Rightarrow>
          if result = PyNone then Some (Inr PyNone, stream)
          else And_parse call parsers (results @ [result]) stream)"

text \<open>
  \<open>Repeat._parse\<close>: the \<open>while\<close> loop runs as long as \<open>at_most is None or
  len(results) <= at_most\<close>; inside, a child that returns \<open>None\<close> ends the method with
  \<open>results\<close> or \<open>None\<close>. When the loop condition fails the method falls off its end, which
  in Python returns \<open>None\<close>. The first argument bounds the iterations.
\<close>

fun Repeat_parse :: "nat \<Rightarrow> (addr \<Rightarrow> TokenStream \<Rightarrow> outcome) \<Rightarrow> addr \<Rightarrow> int \<Rightarrow> int option \<Rightarrow> pyval list \<Rightarrow> TokenStream \<Rightarrow> outcome" where
  "Repeat_parse 0 call parser at_least at_most results stream = None"
| "Repeat_parse (Suc n) call parser at_least at_most results stream =
     (if (case at_most of None \<Rightarrow> True | Some m \<Rightarrow> int (length results) \<le> m) then
        (case call parser stream of
           None \<Rightarrow> None
         | Some (Inl e, stream) \<Rightarrow> Some (Inl e, stream)
         | Some (Inr result, stream) \<Rightarrow>
             if result = PyNone then
               Some (Inr (if int (length results) \<ge> at_least then PyList results else PyNone),
                     stream)
             else Repeat_parse n call parser at_least at_most (results @ [result]) stream)
      else Some (Inr PyNone, stream))"

text \<open>
  \<open>self._parse(stream)\<close>, by the class of \<open>self\<close>. \<open>Action._parse\<close> applies the action to
  whatever the child returned. \<open>Proxy._parse\<close> calls \<open>self.parser\<close>; calling \<open>None\<close>
  raises TypeError.
\<close>

fun parse :: "nat \<Rightarrow> (addr \<Rightarrow> TokenStream \<Rightarrow> outcome) \<Rightarrow> node \<Rightarrow> TokenStream \<Rightarrow> outcome" where
  "parse n call (TokenSatisfying c) stream = Some (TokenSatisfying_parse (TokenSatisfying c) stream)"
| "parse n call (TokenOfType ty) stream = Some (TokenSatisfying_parse (TokenOfType ty) stream)"
| "parse n call (TokenMatching t) stream = Some (TokenSatisfying_parse (TokenMatching t) stream)"
| "parse n call (Symbol s) stream = Some (TokenSatisfying_parse (Symbol s) stream)"
| "parse n call (Keyword k) stream = Some (TokenSatisfying_parse (Keyword k) stream)"
| "parse n call (Action parser action) stream =
     (case call parser stream of
        None \<Rightarrow> None
      | Some (Inl e, stream) \<Rightarrow> Some (Inl e, stream)
      | Some (Inr result, stream) \<Rightarrow> Some (Inr (action result), stream))"
| "parse n call (Proxy None) stream = Some (Inl TypeError, stream)"
| "parse n call (Proxy (Some parser)) stream = call parser stream"
| "parse n call (Or parsers) stream = Or_parse call parsers stream"
| "parse n call (And parsers) stream = And_parse call parsers [] stream"
| "parse n call (Repeat parser at_least at_most) stream =
     Repeat_parse n call parser at_least at_most [] stream"

text \<open>
  \<open>Parser.__call__\<close>: save the cursor, run \<open>_parse\<close>, and load the saved cursor when the
  result is \<open>None\<close>. An exception leaves the stream as it is. The \<open>isinstance(stream, str)\<close>
  guard is excluded by the type of \<open>stream\<close>.
\<close>

fun Parser_call :: "nat \<Rightarrow> heap \<Rightarrow> addr \<Rightarrow> TokenStream \<Rightarrow> outcome" where
  "Parser_call 0 h self stream = None"
| "Parser_call (Suc n) h self stream =
     (let save = TokenStream_save stream in
      case parse n (Parser_call n h) (h self) stream of
        None \<Rightarrow> None
      | Some (Inl e, stream) \<Rightarrow> Some (Inl e, stream)
      | Some (Inr result, stream) \<Rightarrow>
          if result = PyNone then Some (Inr result, TokenStream_load stream save)
          else Some (Inr result, stream))"

section \<open>Grammar introspection\<close>

text \<open>
  \<open>Parser.descendants(self, seen=None)\<close>. The set \<open>seen\<close> holds parser objects by
  identity, that is, addresses; \<open>None\<close> stands for a fresh empty set. The method adds
  \<open>self\<close> and then loops over \<open>self.children\<close>; the body of the loop calls
  \<open>self.descendants(seen)\<close>, on \<open>self\<close> and not on the loop variable \<open>parser\<close>. The set
  is one mutable object that every call returns, so the loop continues with the set the
  call returned.
\<close>

fun default_seen :: "addr set option \<Rightarrow> addr set" where
  "default_seen None = {}"
| "default_seen (Some seen) = seen"

function (domintros) descendants :: "heap \<Rightarrow> addr \<Rightarrow> addr set option \<Rightarrow> addr set"
  and descendants_loop :: "heap \<Rightarrow> addr \<Rightarrow> addr list \<Rightarrow> addr set \<Rightarrow> addr set"
where
  "descendants h self seen =
     (if self \<in> default_seen seen then default_seen seen
      else descendants_loop h self (children (h self)) (insert self (default_seen seen)))"
| "descendants_loop h self [] seen = seen"
| "descendants_loop h self (parser # parsers) seen =
     descendants_loop h self parsers (descendants h self (Some seen))"
  by pat_completeness auto

termination
proof (rule allI)
  fix x :: "heap \<times> addr \<times> addr set option + heap \<times> addr \<times> addr list \<times> addr set"
  have loop: "descendants_descendants_loop_dom (Inr (h, self, parsers, seen))
                \<and> descendants_loop h self parsers seen = seen"
    if "self \<in> seen" for h self parsers seen
  proof (induction parsers)
    case Nil
    show ?case
      by (simp add: descendants_descendants_loop.domintros(2) descendants_loop.psimps)
  next
    case (Cons p ps)
    have d: "descendants_descendants_loop_dom (Inl (h, self, Some seen))"
      by (rule descendants_descendants_loop.domintros(1)) (simp add: that)
    then have v: "descendants h self (Some seen) = seen"
      using that by (simp add: descendants.psimps)
    have "descendants_descendants_loop_dom (Inr (h, self, p # ps, seen))"
      by (rule descendants_descendants_loop.domintros(3)) (use d v Cons in simp_all)
    then show ?case
      using v Cons by (simp add: descendants_loop.psimps)
  qed
  have dom: "descendants_descendants_loop_dom (Inl (h, self, seen))" for h self seen
    by (rule descendants_descendants_loop.domintros(1)) (simp add: loop)
  have val: "descendants h self seen = insert self (default_seen seen)" for h self seen
    by (simp add: descendants.psimps [OF dom] loop insert_absorb)
  have "descendants_descendants_loop_dom (Inr (h, self, parsers, seen))" for h self parsers seen
  proof (cases parsers)
    case Nil
    then show ?thesis
      by (simp add: descendants_descendants_loop.domintros(2))
  next
    case (Cons p ps)
    show ?thesis
      unfolding Cons
      by (rule descendants_descendants_loop.domintros(3)) (simp_all add: dom val loop)
  qed
  with dom show "descendants_descendants_loop_dom x"
    by (cases x) auto
qed

text \<open>
  The first part of \<open>Parser.parse_string\<close>: the keywords and the symbols of the
  \<open>Keyword\<close> and \<open>Symbol\<close> objects among \<open>self.descendants()\<close>.
\<close>

definition parse_string_keywords :: "heap \<Rightarrow> addr \<Rightarrow> string set" where
  "parse_string_keywords h self =
     (\<Union>parser \<in> descendants h self None. case h parser of Keyword k \<Rightarrow> {k} | _ \<Rightarrow> {})"

definition parse_string_symbols :: "heap \<Rightarrow> addr \<Rightarrow> string set" where
  "parse_string_symbols h self =
     (\<Union>parser \<in> descendants h self None. case h parser of Symbol k \<Rightarrow> {k} | _ \<Rightarrow> {})"

section \<open>Regular expressions\<close>

text \<open>
  The lexer uses Python's \<open>re\<close> module, a backtracking matcher. The patterns of the
  module need character classes, concatenation, alternation, greedy repetition and
  negative lookahead \<open>(?!...)\<close>; the greedy \<open>r+\<close> is \<open>r\<close> followed by \<open>r*\<close>.

  \<open>matches r s\<close> lists the lengths of the prefixes of \<open>s\<close> that \<open>r\<close> can match, in the
  order in which the backtracking matcher tries them: the alternatives of \<open>|\<close> from left
  to right, and for \<open>*\<close> one more iteration before stopping. An iteration that consumes
  nothing is not repeated (no pattern of the module has one). \<open>pattern.match(string, i)\<close>
  takes the first way to match at position \<open>i\<close>, and \<open>re_match\<close> returns the \<open>end()\<close> of
  that match, or \<open>None\<close> when there is no match.
\<close>

datatype regex =
    Chr "char \<Rightarrow> bool"
  | Eps
  | Seq regex regex
  | Alt regex regex
  | Star regex
  | NotAhead regex

fun matches :: "regex \<Rightarrow> string \<Rightarrow> nat list" where
  "matches (Chr P) s = (case s of [] \<Rightarrow> [] | c # _ \<Rightarrow> if P c then [1] else [])"
| "matches Eps s = [0]"
| "matches (Seq r1 r2) s =
     concat (map (\<lambda>k. map (\<lambda>j. k + j) (matches r2 (drop k s))) (matches r1 s))"
| "matches (Alt r1 r2) s = matches r1 s @ matches r2 s"
| "matches (Star r) s =
     concat (map (\<lambda>k. if 0 < k \<and> k \<le> length s
                        then map (\<lambda>j. k + j) (matches (Star r) (drop k s)) else [])
                 (matches r s)) @ [0]"
| "matches (NotAhead r) s = (if matches r s = [] then [0] else [])"

definition re_match :: "regex \<Rightarrow> string \<Rightarrow> nat \<Rightarrow> nat option" where
  "re_match r s i = (case matches r (drop i s) of [] \<Rightarrow> None | k # _ \<Rightarrow> Some (i + k))"

definition Plus :: "regex \<Rightarrow> regex" where
  "Plus r = Seq r (Star r)"

text \<open>A literal text, and \<open>'|'.join(...)\<close> of patterns; the join of no pattern is the
  empty pattern, which matches the empty text.\<close>

fun lit :: "string \<Rightarrow> regex" where
  "lit [] = Eps"
| "lit (c # cs) = Seq (Chr (\<lambda>x. x = c)) (lit cs)"

fun alts :: "regex list \<Rightarrow> regex" where
  "alts [] = Eps"
| "alts [r] = r"
| "alts (r # rs) = Alt r (alts rs)"

text \<open>The classes \<open>\s\<close>, \<open>\d\<close> and \<open>\w\<close> of Python 3 on ASCII text; \<open>\s\<close> is the
  space, the characters 9 to 13 and the separators 28 to 31.\<close>

definition is_space :: "char \<Rightarrow> bool" where
  "is_space c = (c = CHR '' '' \<or> (CHR 0x09 \<le> c \<and> c \<le> CHR 0x0D)
                 \<or> (CHR 0x1C \<le> c \<and> c \<le> CHR 0x1F))"

definition is_digit :: "char \<Rightarrow> bool" where
  "is_digit c = (CHR ''0'' \<le> c \<and> c \<le> CHR ''9'')"

definition is_word :: "char \<Rightarrow> bool" where
  "is_word c = ((CHR ''a'' \<le> c \<and> c \<le> CHR ''z'') \<or> (CHR ''A'' \<le> c \<and> c \<le> CHR ''Z'')
                \<or> is_digit c \<or> c = CHR ''_'')"

section \<open>Lexer\<close>

text \<open>
  \<open>Lexer.ignore_regex\<close> is \<open>(?:(?:\s+)|(?:\#[^\n]*))*\<close> and \<open>Lexer.err_regex\<close> is
  \<open>\S+\<close>.
\<close>

definition ignore_regex :: regex where
  "ignore_regex =
     Star (Alt (Plus (Chr is_space))
               (Seq (Chr (\<lambda>c. c = CHR ''#'')) (Star (Chr (\<lambda>c. c \<noteq> nl)))))"

definition err_regex :: regex where
  "err_regex = Plus (Chr (\<lambda>c. \<not> is_space c))"

text \<open>
  The patterns that \<open>Lexer.__init__\<close> builds. A Python set is given by the list of its
  elements in the order in which the set yields them. Keywords go into their patterns
  unescaped; they are taken to be plain words, which stand for themselves. Symbols go
  through \<open>re.escape\<close>, in the order \<open>reversed(sorted(symbols))\<close>; Python orders strings
  lexicographically by character code, as the order on \<open>string\<close> does here.

  \<open>int\<close> is \<open>\d+(?!\.)\<close>, \<open>float\<close> is \<open>\d+\.\d*\<close>, \<open>keyword\<close> joins \<open>k(?!\w)\<close> for
  the keywords \<open>k\<close>, \<open>name\<close> is \<open>(?!k(?!\w))\<close> for each keyword followed by
  \<open>(?!r\"|r\'|\d)\w+\<close>, and \<open>str\<close> joins the four forms of quoted text.
\<close>

definition int_regex :: regex where
  "int_regex = Seq (Plus (Chr is_digit)) (NotAhead (Chr (\<lambda>c. c = CHR ''.'')))"

definition float_regex :: regex where
  "float_regex =
     Seq (Plus (Chr is_digit)) (Seq (Chr (\<lambda>c. c = CHR ''.'')) (Star (Chr is_digit)))"

definition keyword_regex :: "string list \<Rightarrow> regex" where
  "keyword_regex keywords =
     alts (map (\<lambda>keyword. Seq (lit keyword) (NotAhead (Chr is_word))) keywords)"

definition name_regex :: "string list \<Rightarrow> regex" where
  "name_regex keywords =
     foldr (\<lambda>keyword r. Seq (NotAhead (Seq (lit keyword) (NotAhead (Chr is_word)))) r) keywords
       (Seq (NotAhead (Alt (lit [CHR ''r'', CHR 0x22])
                      (Alt (lit [CHR ''r'', CHR 0x27]) (Chr is_digit))))
            (Plus (Chr is_word)))"

definition quoted :: "char \<Rightarrow> regex" where
  "quoted q =
     Seq (Chr (\<lambda>c. c = q))
       (Seq (Star (Alt (Chr (\<lambda>c. c \<noteq> q)) (Seq (Chr (\<lambda>c. c = CHR 0x5C)) (Chr (\<lambda>c. c = q)))))
            (Chr (\<lambda>c. c = q)))"

definition raw_quoted :: "char \<Rightarrow> regex" where
  "raw_quoted q =
     Seq (Chr (\<lambda>c. c = CHR ''r''))
       (Seq (Chr (\<lambda>c. c = q)) (Seq (Star (Chr (\<lambda>c. c \<noteq> q))) (Chr (\<lambda>c. c = q))))"

definition str_regex :: regex where
  "str_regex = alts [quoted (CHR 0x22), quoted (CHR 0x27), raw_quoted (CHR 0x22), raw_quoted (CHR 0x27)]"

definition symbol_order :: "string list \<Rightarrow> string list" where
  "symbol_order symbols = rev (sort symbols)"

definition symbol_regex :: "string list \<Rightarrow> regex" where
  "symbol_regex symbols = alts (map lit (symbol_order symbols))"

text \<open>
  \<open>class Lexer\<close>. \<open>token_types\<close> is the dictionary of the compiled patterns, in the
  order of its keys in the source.
\<close>

record Lexer =
  "keywords" :: "string list"
  symbols :: "string list"
  token_types :: "(string \<times> regex) list"

definition Lexer_init :: "string list \<Rightarrow> string list \<Rightarrow> Lexer" where
  "Lexer_init kws syms =
     \<lparr> keywords = kws, symbols = syms,
       token_types =
         [(''int'', int_regex),
          (''float'', float_regex),
          (''keyword'', keyword_regex kws),
          (''name'', name_regex kws),
          (''str'', str_regex),
          (''symbol'', symbol_regex syms)] \<rparr>"

text \<open>
  \<open>Lexer._lex\<close>, run to its end as \<open>list(token_generator)\<close> does in \<open>TokenStream\<close>.
  The loop skips what \<open>ignore_regex\<close> matches from \<open>i = 0\<close>. If that reaches the end of
  the text, the loop is left and \<open>Token('eof', string, '', len(string), len(string))\<close>
  is evaluated: five arguments for the four parameters of \<open>Token.__init__\<close>, a TypeError.
  Otherwise the \<open>for\<close> statement evaluates \<open>token_types\<close>, a name that is bound neither
  in \<open>_lex\<close> nor in the module (the dictionary is the attribute \<open>self.token_types\<close>), a
  NameError. Either way the first pass through the loop raises, so the model has no
  recursion, and the rest of the loop body is never run.
\<close>

definition Lexer_lex :: "Lexer \<Rightarrow> string \<Rightarrow> error + Token list" where
  "Lexer_lex self str =
     (case re_match ignore_regex str 0 of
        None \<Rightarrow> Inl AttributeError
      | Some i \<Rightarrow> if i \<ge> length str then Inl TypeError else Inl NameError)"

text \<open>\<open>Lexer.__call__\<close>: the token stream over the tokens of \<open>_lex\<close>.\<close>

definition Lexer_call :: "Lexer \<Rightarrow> string \<Rightarrow> error + TokenStream" where
  "Lexer_call self str =
     (case Lexer_lex self str of
        Inl e \<Rightarrow> Inl e
      | Inr tokens \<Rightarrow> Inr (TokenStream_init tokens))"

section \<open>Token stream: peek and next\<close>

lemma peek_clamped:
  assumes "token_list s \<noteq> []" and "int (length (token_list s)) - 1 \<le> position s"
  shows "TokenStream_peek s = (Inr (last (token_list s)), s)"
proof -
  from assms(1) have len: "0 < length (token_list s)"
    by simp
  with assms(2)
  have m: "min (position s) (int (length (token_list s)) - 1) = int (length (token_list s) - 1)"
    by (cases "token_list s") (auto simp: min_def)
  have "list_getitem (token_list s) (int (length (token_list s) - 1))
          = Inr (token_list s ! (length (token_list s) - 1))"
    using len by (simp add: list_getitem_def)
  with m assms(1) show ?thesis
    by (simp add: TokenStream_peek_def last_conv_nth)
qed

text \<open>
  Claim C8. A token stream of the tokenizer ends with the end-of-input token, so its
  token list is not empty. On every stream with a non-empty token list and the cursor at
  or beyond the last token, \<open>peek\<close> returns the last token of the list and does not
  raise; it leaves the stream as it is, so after any number \<open>n\<close> of peeks the stream is
  unchanged and the next peek returns the same token.
\<close>

theorem peek_past_end_sentinel:
  assumes "token_list s \<noteq> []" and "int (length (token_list s)) - 1 \<le> position s"
  shows "((\<lambda>s. snd (TokenStream_peek s)) ^^ n) s = s \<and>
         fst (TokenStream_peek (((\<lambda>s. snd (TokenStream_peek s)) ^^ n) s))
           = Inr (last (token_list s))"
proof -
  have "((\<lambda>s. snd (TokenStream_peek s)) ^^ n) s = s"
    by (induction n) (simp_all add: TokenStream_peek_def)
  with peek_clamped [OF assms] show ?thesis
    by simp
qed

theorem peek_past_end_sentinel_witness:
  "token_list \<lparr>token_list = [Token_init ''a'' ''a'' 0 1, Token_init [] ''a'' 1 1], position = 7\<rparr> \<noteq> []
   \<and> int (length (token_list \<lparr>token_list = [Token_init ''a'' ''a'' 0 1, Token_init [] ''a'' 1 1], position = 7\<rparr>)) - 1
       \<le> position \<lparr>token_list = [Token_init ''a'' ''a'' 0 1, Token_init [] ''a'' 1 1], position = 7\<rparr>
   \<and> ((\<lambda>s. snd (TokenStream_peek s)) ^^ 3)
         \<lparr>token_list = [Token_init ''a'' ''a'' 0 1, Token_init [] ''a'' 1 1], position = 7\<rparr>
       = \<lparr>token_list = [Token_init ''a'' ''a'' 0 1, Token_init [] ''a'' 1 1], position = 7\<rparr>
   \<and> fst (TokenStream_peek (((\<lambda>s. snd (TokenStream_peek s)) ^^ 3)
         \<lparr>token_list = [Token_init ''a'' ''a'' 0 1, Token_init [] ''a'' 1 1], position = 7\<rparr>))
       = Inr (Token_init [] ''a'' 1 1)"
proof -
  let ?s = "\<lparr>token_list = [Token_init ''a'' ''a'' 0 1, Token_init [] ''a'' 1 1], position = 7\<rparr>"
  have h1: "token_list ?s \<noteq> []"
    by simp
  have h2: "int (length (token_list ?s)) - 1 \<le> position ?s"
    by simp
  have l: "last (token_list ?s) = Token_init [] ''a'' 1 1"
    by simp
  from h1 h2 peek_past_end_sentinel [OF h1 h2, of 3, unfolded l] show ?thesis
    by blast
qed

text \<open>
  Claim C9. \<open>next\<close> is not clamped: with the cursor at or past the number of stored
  tokens it raises IndexError, and the stream it leaves has the cursor advanced by one,
  since the increment comes before the read.
\<close>

theorem next_past_end_raises:
  assumes "int (length (token_list s)) \<le> position s"
  shows "TokenStream_next s = (Inl IndexError, s\<lparr>position := position s + 1\<rparr>)"
  using assms by (simp add: TokenStream_next_def list_getitem_def Let_def)

theorem next_past_end_raises_witness:
  "int (length (token_list \<lparr>token_list = [Token_init ''a'' ''a'' 0 1, Token_init [] ''a'' 1 1], position = 2\<rparr>))
     \<le> position \<lparr>token_list = [Token_init ''a'' ''a'' 0 1, Token_init [] ''a'' 1 1], position = 2\<rparr>
   \<and> TokenStream_next \<lparr>token_list = [Token_init ''a'' ''a'' 0 1, Token_init [] ''a'' 1 1], position = 2\<rparr>
       = (Inl IndexError,
          \<lparr>token_list = [Token_init ''a'' ''a'' 0 1, Token_init [] ''a'' 1 1], position = 3\<rparr>)"
proof -
  let ?s = "\<lparr>token_list = [Token_init ''a'' ''a'' 0 1, Token_init [] ''a'' 1 1], position = 2\<rparr>"
  have h: "int (length (token_list ?s)) \<le> position ?s"
    by simp
  from next_past_end_raises [OF h] show ?thesis
    by simp
qed

section \<open>Token positions\<close>

lemma Token_line_number_count:
  assumes "0 \<le> st"
  shows "line_number (Token_init tok str st en)
           = int (length (filter (\<lambda>x. x = nl) (take (nat st) str)))"
proof -
  from assms have "take (adjust (length str) st) str = take (nat st) str"
    by (simp add: adjust_def min_def)
  then show ?thesis
    by (simp add: Token_init_def Let_def str_count_def str_slice_def adjust_def)
qed

text \<open>
  Claim C7 says that the stored line number is one plus the number of newlines before
  \<open>start\<close>. The constructor stores \<open>string.count('\n', 0, start)\<close> itself: for the
  token \<open>x\<close> of the one-line text \<open>x\<close> the stored line number is 0, while the column
  number, which the constructor does increment, is 1.
\<close>

theorem Token_first_line_number_is_0:
  "line_number (Token_init ''x'' ''x'' 0 1) = 0 \<and> column_number (Token_init ''x'' ''x'' 0 1) = 1"
  by code_simp

section \<open>The bound on nested calls\<close>

text \<open>
  A call that returns within the bound \<open>n\<close> returns the same result within every larger
  bound, so a result computed with some bound is the result of the program.
\<close>

lemma Or_parse_mono:
  assumes "\<And>p s r. call p s = Some r \<Longrightarrow> call' p s = Some r"
  shows "Or_parse call ps s = Some r \<Longrightarrow> Or_parse call' ps s = Some r"
proof (induction ps arbitrary: s)
  case Nil
  then show ?case
    by simp
next
  case (Cons p ps)
  from Cons.prems obtain x where x: "call p s = Some x"
    by (auto split: option.splits)
  then have x': "call' p s = Some x"
    by (rule assms)
  from Cons.prems x x' Cons.IH show ?case
    by (auto split: prod.splits sum.splits if_splits)
qed

lemma And_parse_mono:
  assumes "\<And>p s r. call p s = Some r \<Longrightarrow> call' p s = Some r"
  shows "And_parse call ps acc s = Some r \<Longrightarrow> And_parse call' ps acc s = Some r"
proof (induction ps arbitrary: acc s)
  case Nil
  then show ?case
    by simp
next
  case (Cons p ps)
  from Cons.prems obtain x where x: "call p s = Some x"
    by (auto split: option.splits)
  then have x': "call' p s = Some x"
    by (rule assms)
  from Cons.prems x x' Cons.IH show ?case
    by (auto split: prod.splits sum.splits if_splits)
qed

lemma Repeat_parse_mono:
  assumes "\<And>p s r. call p s = Some r \<Longrightarrow> call' p s = Some r"
  shows "Repeat_parse n call p lo hi acc s = Some r \<Longrightarrow> n \<le> m \<Longrightarrow>
         Repeat_parse m call' p lo hi acc s = Some r"
proof (induction n arbitrary: m acc s)
  case 0
  then show ?case
    by simp
next
  case (Suc n)
  from Suc.prems(2) obtain m' where m: "m = Suc m'" and le: "n \<le> m'"
    by (cases m) auto
  show ?case
  proof (cases "case hi of None \<Rightarrow> True | Some k \<Rightarrow> int (length acc) \<le> k")
    case False
    with Suc.prems(1) m show ?thesis
      by simp
  next
    case True
    with Suc.prems(1) obtain x where x: "call p s = Some x"
      by (auto split: option.splits)
    then have x': "call' p s = Some x"
      by (rule assms)
    from Suc.prems(1) True x x' m le Suc.IH show ?thesis
      by (auto split: prod.splits sum.splits if_splits)
  qed
qed

lemma parse_mono:
  assumes ext: "\<And>p s r. call p s = Some r \<Longrightarrow> call' p s = Some r" and "n \<le> m"
  shows "parse n call nd s = Some r \<Longrightarrow> parse m call' nd s = Some r"
proof (cases nd)
  case (Action p f)
  assume a: "parse n call nd s = Some r"
  with Action obtain x where x: "call p s = Some x"
    by (auto split: option.splits)
  then have "call' p s = Some x"
    by (rule ext)
  with a x Action show ?thesis
    by (auto split: prod.splits sum.splits)
next
  case (Proxy po)
  assume a: "parse n call nd s = Some r"
  with Proxy ext show ?thesis
    by (cases po) auto
next
  case (Or ps)
  assume "parse n call nd s = Some r"
  with Or Or_parse_mono [of call call', OF ext] show ?thesis
    by simp
next
  case (And ps)
  assume "parse n call nd s = Some r"
  with And And_parse_mono [of call call', OF ext] show ?thesis
    by simp
next
  case (Repeat p lo hi)
  assume "parse n call nd s = Some r"
  with Repeat Repeat_parse_mono [of call call', OF ext _ assms(2)] show ?thesis
    by simp
qed simp_all

lemma Parser_call_Suc:
  "Parser_call n h p s = Some r \<Longrightarrow> Parser_call (Suc n) h p s = Some r"
proof (induction n arbitrary: p s r)
  case 0
  then show ?case
    by simp
next
  case (Suc n)
  from Suc.prems obtain x where x: "parse n (Parser_call n h) (h p) s = Some x"
    by (auto simp: Let_def split: option.splits)
  have x': "parse (Suc n) (Parser_call (Suc n) h) (h p) s = Some x"
    by (rule parse_mono [OF Suc.IH _ x]) simp_all
  from Suc.prems x
  have "r = (case x of
               (Inl e, st) \<Rightarrow> (Inl e, st)
             | (Inr v, st) \<Rightarrow>
                 if v = PyNone then (Inr v, TokenStream_load st (TokenStream_save s))
                 else (Inr v, st))"
    by (auto simp: Let_def split: prod.splits sum.splits if_splits)
  with x' show ?case
    by (auto simp: Let_def split: prod.splits sum.splits if_splits)
qed

lemma Parser_call_more:
  "Parser_call n h p s = Some r \<Longrightarrow> Parser_call (n + k) h p s = Some r"
  by (induction k) (simp_all add: Parser_call_Suc del: Parser_call.simps)

section \<open>Backtracking\<close>

text \<open>
  Claim C1. Whenever \<open>Parser.__call__\<close> returns \<open>None\<close>, the cursor of the stream it
  leaves is the cursor of the stream it was given. This holds for every node of every
  grammar, every stream and every depth \<open>n\<close> of nested calls.
\<close>

theorem call_no_match_restores:
  assumes "Parser_call n h p stream = Some (Inr PyNone, stream')"
  shows "position stream' = position stream"
proof (cases n)
  case 0
  with assms show ?thesis
    by simp
next
  case (Suc m)
  with assms show ?thesis
    by (auto simp: Let_def TokenStream_load_def TokenStream_save_def
          split: option.splits sum.splits prod.splits if_splits)
qed

text \<open>
  The grammar \<open>Or(And(Symbol('a'), Symbol('b')))\<close> on the tokens \<open>a c eof\<close>: the
  sequence at address 1 matches \<open>a\<close>, fails on \<open>c\<close>, and its call returns \<open>None\<close> with
  the cursor back at 0.
\<close>

theorem call_no_match_restores_witness:
  "Parser_call 3
     ((\<lambda>_. Proxy None)(0 := Or [1], 1 := And [2, 3], 2 := Symbol ''a'', 3 := Symbol ''b''))
     1
     (TokenStream_init
        [Token_init ''a'' ''a c'' 0 1, Token_init ''c'' ''a c'' 2 3, Token_init [] ''a c'' 3 3])
   = Some (Inr PyNone,
       TokenStream_init
         [Token_init ''a'' ''a c'' 0 1, Token_init ''c'' ''a c'' 2 3, Token_init [] ''a c'' 3 3])
   \<and> position (TokenStream_init
         [Token_init ''a'' ''a c'' 0 1, Token_init ''c'' ''a c'' 2 3, Token_init [] ''a c'' 3 3])
     = position (TokenStream_init
         [Token_init ''a'' ''a c'' 0 1, Token_init ''c'' ''a c'' 2 3, Token_init [] ''a c'' 3 3])"
proof -
  let ?h = "(\<lambda>_. Proxy None)(0 := Or [1], 1 := And [2, 3], 2 := Symbol ''a'', 3 := Symbol ''b'')"
  let ?s = "TokenStream_init
              [Token_init ''a'' ''a c'' 0 1, Token_init ''c'' ''a c'' 2 3, Token_init [] ''a c'' 3 3]"
  have r: "Parser_call 3 ?h 1 ?s = Some (Inr PyNone, ?s)"
    by code_simp
  from r call_no_match_restores [OF r] show ?thesis
    by blast
qed

text \<open>In the same run, \<open>And._parse\<close> itself returns with the cursor after the \<open>a\<close>; the
  enclosing \<open>Or\<close>, called at the root, returns \<open>None\<close> with the cursor at 0 as well.\<close>

lemma sequence_parse_leaves_cursor:
  "parse 2
     (Parser_call 2
        ((\<lambda>_. Proxy None)(0 := Or [1], 1 := And [2, 3], 2 := Symbol ''a'', 3 := Symbol ''b'')))
     (And [2, 3])
     (TokenStream_init
        [Token_init ''a'' ''a c'' 0 1, Token_init ''c'' ''a c'' 2 3, Token_init [] ''a c'' 3 3])
   = Some (Inr PyNone,
       \<lparr>token_list =
          [Token_init ''a'' ''a c'' 0 1, Token_init ''c'' ''a c'' 2 3, Token_init [] ''a c'' 3 3],
        position = 1\<rparr>)
   \<and> Parser_call 4
     ((\<lambda>_. Proxy None)(0 := Or [1], 1 := And [2, 3], 2 := Symbol ''a'', 3 := Symbol ''b''))
     0
     (TokenStream_init
        [Token_init ''a'' ''a c'' 0 1, Token_init ''c'' ''a c'' 2 3, Token_init [] ''a c'' 3 3])
   = Some (Inr PyNone,
       \<lparr>token_list =
          [Token_init ''a'' ''a c'' 0 1, Token_init ''c'' ''a c'' 2 3, Token_init [] ''a c'' 3 3],
        position = 0\<rparr>)"
  by code_simp

text \<open>
  Claim C10. Let \<open>self\<close> be an \<open>Action\<close> node whose child, called on \<open>stream\<close>, succeeds
  with a result other than \<open>None\<close> and leaves \<open>stream1\<close>, and let the action return
  \<open>None\<close> for that result. Then calling \<open>self\<close> on \<open>stream\<close> returns \<open>None\<close>, and the
  stream it leaves is \<open>stream1\<close> with the cursor of \<open>stream\<close>: the tokens the child
  consumed are given back, as for a failed match.
\<close>

theorem action_none_is_no_match:
  assumes "h self = Action parser action"
    and "Parser_call n h parser stream = Some (Inr result, stream1)"
    and "result \<noteq> PyNone"
    and "action result = PyNone"
  shows "Parser_call (Suc n) h self stream
           = Some (Inr PyNone, stream1\<lparr>position := position stream\<rparr>)"
  using assms by (simp add: Let_def TokenStream_load_def TokenStream_save_def)

theorem action_none_is_no_match_witness:
  "((\<lambda>_. Proxy None)(0 := Action 1 (\<lambda>result. PyNone), 1 := Symbol ''a'')) (0::addr)
     = Action 1 (\<lambda>result. PyNone)
   \<and> Parser_call 1 ((\<lambda>_. Proxy None)(0 := Action 1 (\<lambda>result. PyNone), 1 := Symbol ''a'')) 1
        (TokenStream_init [Token_init ''a'' ''a'' 0 1, Token_init [] ''a'' 1 1])
      = Some (Inr (PyToken (Token_init ''a'' ''a'' 0 1)),
              \<lparr>token_list = [Token_init ''a'' ''a'' 0 1, Token_init [] ''a'' 1 1], position = 1\<rparr>)
   \<and> PyToken (Token_init ''a'' ''a'' 0 1) \<noteq> PyNone
   \<and> (\<lambda>result. PyNone) (PyToken (Token_init ''a'' ''a'' 0 1)) = PyNone
   \<and> Parser_call (Suc 1) ((\<lambda>_. Proxy None)(0 := Action 1 (\<lambda>result. PyNone), 1 := Symbol ''a'')) 0
        (TokenStream_init [Token_init ''a'' ''a'' 0 1, Token_init [] ''a'' 1 1])
      = Some (Inr PyNone,
              \<lparr>token_list = [Token_init ''a'' ''a'' 0 1, Token_init [] ''a'' 1 1], position = 0\<rparr>)"
proof -
  let ?h = "(\<lambda>_. Proxy None)(0 := Action 1 (\<lambda>result. PyNone), 1 := Symbol ''a'') :: heap"
  let ?s = "TokenStream_init [Token_init ''a'' ''a'' 0 1, Token_init [] ''a'' 1 1]"
  let ?s1 = "\<lparr>token_list = [Token_init ''a'' ''a'' 0 1, Token_init [] ''a'' 1 1], position = 1\<rparr>"
  let ?t = "Token_init ''a'' ''a'' 0 1"
  have h1: "?h 0 = Action 1 (\<lambda>result. PyNone)"
    by simp
  have h2: "Parser_call 1 ?h 1 ?s = Some (Inr (PyToken ?t), ?s1)"
    by code_simp
  have h3: "PyToken ?t \<noteq> PyNone"
    by simp
  have h4: "(\<lambda>result. PyNone) (PyToken ?t) = PyNone"
    by simp
  have e: "?s1\<lparr>position := position ?s\<rparr>
             = \<lparr>token_list = [Token_init ''a'' ''a'' 0 1, Token_init [] ''a'' 1 1], position = 0\<rparr>"
    by (simp add: TokenStream_init_def)
  from h1 h2 h3 h4 action_none_is_no_match [OF h1 h2 h3 h4, unfolded e] show ?thesis
    by blast
qed

section \<open>Bounded repetition\<close>

text \<open>
  Claim C3 says that a repetition with maximum \<open>N\<close> stops after \<open>N\<close> matches and returns
  them, leaving the rest of the input. In \<open>Repeat._parse\<close> the loop condition is
  \<open>len(results) <= at_most\<close>, so the child is called once more after \<open>N\<close> matches, and
  when that call succeeds too the loop ends and the method returns \<open>None\<close>. For
  \<open>AtMost(Symbol('a'), 1)\<close> on the tokens \<open>a a a eof\<close> the call returns \<open>None\<close> with
  the cursor at 0, not the list of one \<open>a\<close> with the cursor at 1.
\<close>

theorem AtMost_excess_is_no_match:
  "Parser_call (4 + k) ((\<lambda>_. Proxy None)(0 := AtMost 1 1, 1 := Symbol ''a'')) 0
     (TokenStream_init [Token_init ''a'' ''a a a'' 0 1, Token_init ''a'' ''a a a'' 2 3,
                        Token_init ''a'' ''a a a'' 4 5, Token_init [] ''a a a'' 5 5])
   = Some (Inr PyNone,
       \<lparr>token_list = [Token_init ''a'' ''a a a'' 0 1, Token_init ''a'' ''a a a'' 2 3,
                      Token_init ''a'' ''a a a'' 4 5, Token_init [] ''a a a'' 5 5],
        position = 0\<rparr>)"
proof -
  have "Parser_call 4 ((\<lambda>_. Proxy None)(0 := AtMost 1 1, 1 := Symbol ''a'')) 0
     (TokenStream_init [Token_init ''a'' ''a a a'' 0 1, Token_init ''a'' ''a a a'' 2 3,
                        Token_init ''a'' ''a a a'' 4 5, Token_init [] ''a a a'' 5 5])
   = Some (Inr PyNone,
       \<lparr>token_list = [Token_init ''a'' ''a a a'' 0 1, Token_init ''a'' ''a a a'' 2 3,
                      Token_init ''a'' ''a a a'' 4 5, Token_init [] ''a a a'' 5 5],
        position = 0\<rparr>)"
    by code_simp
  then show ?thesis
    by (rule Parser_call_more)
qed

text \<open>When the input has no more than \<open>N\<close> matches, the same parser returns them: on the
  tokens \<open>a eof\<close> it returns the list of the one \<open>a\<close> and leaves the cursor at 1.\<close>

lemma AtMost_within_bound:
  "Parser_call (3 + k) ((\<lambda>_. Proxy None)(0 := AtMost 1 1, 1 := Symbol ''a'')) 0
     (TokenStream_init [Token_init ''a'' ''a'' 0 1, Token_init [] ''a'' 1 1])
   = Some (Inr (PyList [PyToken (Token_init ''a'' ''a'' 0 1)]),
       \<lparr>token_list = [Token_init ''a'' ''a'' 0 1, Token_init [] ''a'' 1 1], position = 1\<rparr>)"
proof -
  have "Parser_call 3 ((\<lambda>_. Proxy None)(0 := AtMost 1 1, 1 := Symbol ''a'')) 0
     (TokenStream_init [Token_init ''a'' ''a'' 0 1, Token_init [] ''a'' 1 1])
   = Some (Inr (PyList [PyToken (Token_init ''a'' ''a'' 0 1)]),
       \<lparr>token_list = [Token_init ''a'' ''a'' 0 1, Token_init [] ''a'' 1 1], position = 1\<rparr>)"
    by code_simp
  then show ?thesis
    by (rule Parser_call_more)
qed

section \<open>Traversal of the grammar\<close>

lemma descendants_loop_seen:
  "self \<in> seen \<Longrightarrow> descendants_loop h self parsers seen = seen"
  by (induction parsers) simp_all

lemma descendants_only_self: "descendants h self seen = insert self (default_seen seen)"
  by (simp add: descendants_loop_seen insert_absorb)

text \<open>
  Claim C2 says that the traversal reaches every node below the root and collects the
  literal of every keyword and symbol matcher. The traversal terminates
  (\<open>descendants\<close> is a total function), but its loop calls \<open>self.descendants(seen)\<close>
  where \<open>parser.descendants(seen)\<close> is meant, so no child is ever visited: the result is
  the root alone (\<open>descendants_only_self\<close>). For \<open>And(Keyword('if'), Symbol('='))\<close> the
  visited set is the root, and both literal sets are empty.
\<close>

theorem descendants_misses_children:
  "descendants ((\<lambda>_. Proxy None)(0 := And [1, 2], 1 := Keyword ''if'', 2 := Symbol ''='')) 0 None
     = {0}
   \<and> parse_string_keywords
       ((\<lambda>_. Proxy None)(0 := And [1, 2], 1 := Keyword ''if'', 2 := Symbol ''='')) 0 = {}
   \<and> parse_string_symbols
       ((\<lambda>_. Proxy None)(0 := And [1, 2], 1 := Keyword ''if'', 2 := Symbol ''='')) 0 = {}"
  by (simp add: parse_string_keywords_def parse_string_symbols_def descendants_loop_seen)

section \<open>Tokenizing\<close>

lemma Lexer_call_never_returns: "Lexer_call self str \<noteq> Inr stream"
  by (simp add: Lexer_call_def Lexer_lex_def split: option.splits)

text \<open>
  Claim C4 is about the tokens that the tokenizer emits on a successfully tokenized
  input. There is no such input: \<open>Lexer.__call__\<close> raises on every text
  (\<open>Lexer_call_never_returns\<close>). On \<open>x = 1\<close> the loop of \<open>_lex\<close> reaches \<open>for type_,
  regex in token_types.items()\<close>, where the name \<open>token_types\<close> is unbound (NameError); on
  the empty text it reaches \<open>Token('eof', string, '', len(string), len(string))\<close>, a call
  with one argument too many (TypeError).
\<close>

theorem Lexer_call_raises:
  "Lexer_call (Lexer_init [] [''='']) ''x = 1'' = Inl NameError
   \<and> Lexer_call (Lexer_init [] [''='']) [] = Inl TypeError"
  by code_simp

text \<open>
  Claim C6 says that the integer pattern does not match where digits are followed by a
  decimal point, so that \<open>12.5\<close> is one float token. The pattern \<open>\d+(?!\.)\<close> backtracks:
  at \<open>12.5\<close> it gives up the \<open>2\<close>, the lookahead then sees \<open>2\<close> and not the point, and the
  pattern matches \<open>1\<close>. The integer pattern is the first entry of \<open>token_types\<close>, ahead of
  the float pattern, which matches all of \<open>12.5\<close>.
\<close>

theorem int_regex_matches_before_point:
  "re_match int_regex ''12.5'' 0 = Some 1
   \<and> re_match float_regex ''12.5'' 0 = Some 4
   \<and> map fst (token_types (Lexer_init [] []))
       = [''int'', ''float'', ''keyword'', ''name'', ''str'', ''symbol'']"
  by code_simp

subsection \<open>The symbol pattern\<close>

lemma matches_lit: "matches (lit w) s = (if prefix w s then [length w] else [])"
proof (induction w arbitrary: s)
  case Nil
  show ?case
    by simp
next
  case (Cons c cs)
  show ?case
  proof (cases s)
    case Nil
    then show ?thesis
      by simp
  next
    case (Cons d ds)
    then show ?thesis
      using Cons.IH [of ds] by simp
  qed
qed

lemma matches_alts:
  "rs \<noteq> [] \<Longrightarrow> matches (alts rs) s = concat (map (\<lambda>r. matches r s) rs)"
  by (induction rs rule: alts.induct) simp_all

lemma concat_lit_matches:
  "concat (map (\<lambda>r. matches r s) (map lit ws)) = map length (filter (\<lambda>w. prefix w s) ws)"
  by (induction ws) (simp_all add: matches_lit)

lemma matches_symbol_regex:
  assumes "syms \<noteq> []"
  shows "matches (symbol_regex syms) s
           = map length (filter (\<lambda>w. prefix w s) (symbol_order syms))"
proof -
  from assms have "length (map lit (symbol_order syms)) \<noteq> 0"
    by (simp add: symbol_order_def)
  then have "map lit (symbol_order syms) \<noteq> []"
    by (simp only: length_0_conv not_False_eq_True)
  from matches_alts [OF this, of s] show ?thesis
    by (simp only: symbol_regex_def concat_lit_matches)
qed

lemma prefix_imp_le: "prefix (a::string) b \<Longrightarrow> a \<le> b"
  by (auto simp: prefix_def list_le_def list_less_def
        intro: lexord_append_rightI dest: neq_Nil_conv [THEN iffD1])

lemma symbol_order_descending: "sorted_wrt (\<lambda>x y. y \<le> x) (symbol_order syms)"
  by (simp add: symbol_order_def sorted_wrt_rev)

lemma filter_first_greatest:
  assumes "sorted_wrt (\<lambda>x y. y \<le> x) ys" and "filter P ys = m # rest"
    and "v \<in> set ys" and "P v"
  shows "v \<le> (m::string)"
proof -
  from assms(2) obtain us vs where ys: "ys = us @ m # vs" and us: "\<forall>u\<in>set us. \<not> P u"
    by (auto simp: filter_eq_Cons_iff)
  from assms(1) ys have "\<forall>x\<in>set vs. x \<le> m"
    by (simp add: sorted_wrt_append)
  with assms(3,4) ys us show ?thesis
    by auto
qed

text \<open>
  Claim C5 says that the symbols are ordered by descending length. The order is
  \<open>reversed(sorted(symbols))\<close>, the reverse of the lexicographic order: for the symbols
  \<open>==\<close> and \<open>a\<close> it puts \<open>a\<close>, of length 1, before \<open>==\<close>, of length 2.
\<close>

theorem symbol_order_not_by_length:
  "symbol_order [''=='', ''a''] = [''a'', ''=='']
   \<and> map length (symbol_order [''=='', ''a'']) = [1, 2]"
  by code_simp

text \<open>
  Claim C5, amended. The symbol pattern is the alternation of the symbols in reverse
  lexicographic order. When some symbol matches at position \<open>i\<close> of the text, that is,
  is a prefix of the text from \<open>i\<close> on, the pattern matches at \<open>i\<close> a symbol \<open>m\<close> that is
  at least as long as every symbol that matches there.
\<close>

theorem symbol_regex_longest:
  assumes "w \<in> set syms" and "prefix w (drop i str)"
  shows "\<exists>m\<in>set syms. prefix m (drop i str)
           \<and> re_match (symbol_regex syms) str i = Some (i + length m)
           \<and> (\<forall>v\<in>set syms. prefix v (drop i str) \<longrightarrow> length v \<le> length m)"
proof -
  let ?s = "drop i str"
  let ?ys = "symbol_order syms"
  have set_ys: "set ?ys = set syms"
    by (simp add: symbol_order_def)
  from assms have "w \<in> set (filter (\<lambda>w. prefix w ?s) ?ys)"
    by (simp add: set_ys)
  then obtain m rest where f: "filter (\<lambda>w. prefix w ?s) ?ys = m # rest"
    by (cases "filter (\<lambda>w. prefix w ?s) ?ys") auto
  then have "m \<in> set (filter (\<lambda>w. prefix w ?s) ?ys)"
    by simp
  then have m: "m \<in> set syms" "prefix m ?s"
    by (simp_all add: set_ys)
  from assms(1) have "syms \<noteq> []"
    by auto
  then have r: "re_match (symbol_regex syms) str i = Some (i + length m)"
    by (simp add: re_match_def matches_symbol_regex f)
  have "length v \<le> length m" if v: "v \<in> set syms" "prefix v ?s" for v
  proof -
    from v have "v \<le> m"
      using filter_first_greatest [OF symbol_order_descending f, of v] by (simp add: set_ys)
    from v(2) m(2) have "prefix v m \<or> prefix m v"
      by (rule prefix_same_cases)
    then show ?thesis
    proof
      assume "prefix v m"
      then show ?thesis
        by (rule prefix_length_le)
    next
      assume "prefix m v"
      then have "m \<le> v"
        by (rule prefix_imp_le)
      with \<open>v \<le> m\<close> show ?thesis
        by simp
    qed
  qed
  with m r show ?thesis
    by blast
qed

text \<open>With the symbols \<open>=\<close> and \<open>==\<close>, the pattern matches all of the text \<open>==\<close>.\<close>

theorem symbol_regex_longest_witness:
  "''='' \<in> set [''='', ''==''] \<and> prefix ''='' (drop 0 ''=='')
   \<and> (\<exists>m\<in>set [''='', ''==''].
         prefix m (drop 0 ''=='')
         \<and> re_match (symbol_regex [''='', ''=='']) ''=='' 0 = Some (0 + length m)
         \<and> (\<forall>v\<in>set [''='', ''==''] . prefix v (drop 0 ''=='') \<longrightarrow> length v \<le> length m))
   \<and> re_match (symbol_regex [''='', ''=='']) ''=='' 0 = Some 2"
proof -
  have h1: "''='' \<in> set [''='', ''=='']"
    by simp
  have h2: "prefix ''='' (drop 0 ''=='')"
    by simp
  have e: "re_match (symbol_regex [''='', ''=='']) ''=='' 0 = Some 2"
    by code_simp
  from h1 h2 e symbol_regex_longest [OF h1 h2] show ?thesis
    by blast
qed

end
